theory Spec2Isabelle
  imports Main "HOL-Library.Sublist" "HOL-Library.AList"
begin

section \<open>Data model\<close>

text \<open>
  The exceptions the source distinguishes. \<open>UndefinedError\<close> is jinja2's templating
  failure, \<open>AttributeError\<close> Python's missing-attribute failure; \<open>ValueError\<close> and
  \<open>IndexError\<close> arise from unpacking and indexing the bounds list; \<open>OtherError\<close> stands
  for every exception class that no \<open>except\<close> clause of the source names.
\<close>

datatype error = UndefinedError | AttributeError | ValueError | IndexError | OtherError

text \<open>
  A folium element: its \<open>_id\<close>, the data its template renders from, and its
  \<open>_children\<close> in insertion order. A \<open>folium.plugins.DualMap\<close> carries its two
  sub-maps \<open>m1\<close> and \<open>m2\<close> instead of children.
\<close>

datatype 't node =
    Node (node_id: string) (template: 't) (children: "'t node list")
  | DualMap (node_id: string) (template: 't) (m1: "'t node") (m2: "'t node")

text \<open>
  The templating library is an external collaborator: \<open>m._template.module.script(m)\<close> and
  \<open>m._template.render(this=m, kwargs={})\<close> are parameters of the model. Each receives the
  element in the state it has at the time of the call and either raises or returns text.
\<close>

type_synonym 't renderer = "'t node \<Rightarrow> error + string"

text \<open>
  The \<open>mappings\<close> dictionary, old identifier to new identifier. A Python dictionary keeps
  insertion order, and assigning to a key that is present keeps its position:
  that is \<open>AList.update\<close>.
\<close>

type_synonym mappings = "(string \<times> string) list"

section \<open>Strings\<close>

definition newline :: string where
  "newline = [CHR 0x0A]"

definition digit_char :: "nat \<Rightarrow> char" where
  "digit_char n = ''0123456789'' ! n"

text \<open>The decimal numeral of a non-negative integer, as an f-string formats \<open>idx\<close>.\<close>

fun str_nat :: "nat \<Rightarrow> string" where
  "str_nat n = (if n < 10 then [digit_char n] else str_nat (n div 10) @ [digit_char (n mod 10)])"

declare str_nat.simps [simp del]

text \<open>\<open>f"{base_id}_{idx}"\<close>\<close>

definition child_id :: "string \<Rightarrow> nat \<Rightarrow> string" where
  "child_id base_id idx = base_id @ ''_'' @ str_nat idx"

text \<open>
  \<open>s.replace(old, new)\<close>: every non-overlapping occurrence of \<open>old\<close>, found from the left,
  is replaced. With an empty \<open>old\<close> Python inserts \<open>new\<close> before every character and at
  the end.
\<close>

fun replace_nonempty :: "string \<Rightarrow> string \<Rightarrow> string \<Rightarrow> string" where
  "replace_nonempty old new [] = []"
| "replace_nonempty old new (c # cs) =
     (if old \<noteq> [] \<and> prefix old (c # cs)
      then new @ replace_nonempty old new (drop (length old) (c # cs))
      else c # replace_nonempty old new cs)"

definition str_replace :: "string \<Rightarrow> string \<Rightarrow> string \<Rightarrow> string" where
  "str_replace s old new =
     (if old = [] then new @ concat (map (\<lambda>c. c # new) s) else replace_nonempty old new s)"

section \<open>Identifier stabilisation and script assembly\<close>

text \<open>
  \<open>_generate_leaflet_string(m, nested, base_id, mappings)\<close>. The source mutates the element
  and the dictionary in place, so the model returns both with the outcome: the element after
  the call, the dictionary after the call, and the exception raised or the script returned.
  \<open>children_loop\<close> is the \<open>for idx, child in enumerate(m._children.values())\<close> loop from
  index \<open>idx\<close> on, with the script accumulated so far. \<open>own_snippet\<close> is the
  \<open>try: leaflet = m._template.module.script(m) except UndefinedError: ...\<close> block.
\<close>

definition own_snippet :: "'t renderer \<Rightarrow> 't renderer \<Rightarrow> 't node \<Rightarrow> error + string" where
  "own_snippet script render m =
     (case script m of
        Inr leaflet \<Rightarrow> Inr leaflet
      | Inl e \<Rightarrow> if e = UndefinedError then render m else Inl e)"

fun underscore_generate_leaflet_string ::
    "'t renderer \<Rightarrow> 't renderer \<Rightarrow> 't node \<Rightarrow> bool \<Rightarrow> string \<Rightarrow> mappings
      \<Rightarrow> 't node \<times> mappings \<times> (error + string)"
  and children_loop ::
    "'t renderer \<Rightarrow> 't renderer \<Rightarrow> string \<Rightarrow> nat \<Rightarrow> 't node list \<Rightarrow> mappings \<Rightarrow> string
      \<Rightarrow> 't node list \<times> mappings \<times> (error + string)"
where
  "underscore_generate_leaflet_string script render (DualMap i t a b) nested base_id mappings =
     (let mappings1 = AList.update i base_id mappings in
      if \<not> nested then
        (case underscore_generate_leaflet_string script render a False ''0'' mappings1 of
           (a', mappings2, r) \<Rightarrow> (DualMap base_id t a' b, mappings2, r))
      else
        (case underscore_generate_leaflet_string script render a True ''0'' mappings1 of
           (a', mappings2, Inl e) \<Rightarrow> (DualMap base_id t a' b, mappings2, Inl e)
         | (a', mappings2, Inr leaflet1) \<Rightarrow>
             (case underscore_generate_leaflet_string script render b True ''0'' mappings2 of
                (b', mappings3, Inl e) \<Rightarrow> (DualMap base_id t a' b', mappings3, Inl e)
              | (b', mappings3, Inr leaflet2) \<Rightarrow>
                  (case script (DualMap base_id t a' b') of
                     Inl e \<Rightarrow> (DualMap base_id t a' b', mappings3, Inl e)
                   | Inr sync \<Rightarrow>
                       (DualMap base_id t a' b', mappings3,
                        Inr (leaflet1 @ newline @ leaflet2 @ sync))))))"
| "underscore_generate_leaflet_string script render (Node i t cs) nested base_id mappings =
     (let mappings1 = AList.update i base_id mappings;
          m = Node base_id t cs
      in case own_snippet script render m of
           Inl e \<Rightarrow> (m, mappings1, Inl e)
         | Inr leaflet \<Rightarrow>
             if \<not> nested then (m, mappings1, Inr leaflet)
             else (case children_loop script render base_id 0 cs mappings1 leaflet of
                     (cs', mappings2, r) \<Rightarrow> (Node base_id t cs', mappings2, r)))"
| "children_loop script render base_id idx [] mappings leaflet = ([], mappings, Inr leaflet)"
| "children_loop script render base_id idx (child # rest) mappings leaflet =
     (case underscore_generate_leaflet_string script render child True (child_id base_id idx) mappings of
        (child', mappings1, Inr s) \<Rightarrow>
          (case children_loop script render base_id (Suc idx) rest mappings1 (leaflet @ newline @ s) of
             (rest', mappings2, r) \<Rightarrow> (child' # rest', mappings2, r))
      | (child', mappings1, Inl e) \<Rightarrow>
          if e = UndefinedError \<or> e = AttributeError then
            (case children_loop script render base_id (Suc idx) rest mappings1 leaflet of
               (rest', mappings2, r) \<Rightarrow> (child' # rest', mappings2, r))
          else (child' # rest, mappings1, Inl e))"

text \<open>The substitution pass: \<open>for k, v in mappings.items(): leaflet = leaflet.replace(k, v)\<close>.\<close>

definition substitute :: "mappings \<Rightarrow> string \<Rightarrow> string" where
  "substitute mappings leaflet = fold (\<lambda>(k, v) l. str_replace l k v) mappings leaflet"

text \<open>
  \<open>generate_leaflet_string(m, nested, base_id)\<close>: the element after the call, and the
  exception raised or the script returned.
\<close>

definition generate_leaflet_string ::
    "'t renderer \<Rightarrow> 't renderer \<Rightarrow> 't node \<Rightarrow> bool \<Rightarrow> string \<Rightarrow> 't node \<times> (error + string)" where
  "generate_leaflet_string script render m nested base_id =
     (case underscore_generate_leaflet_string script render m nested base_id [] of
        (m', mappings, Inl e) \<Rightarrow> (m', Inl e)
      | (m', mappings, Inr leaflet) \<Rightarrow> (m', Inr (substitute mappings leaflet)))"

text \<open>
  The calls of \<open>_generate_leaflet_string\<close> that one call brings about, in order, each as
  the pair of the identifier the element has on entry and the \<open>base_id\<close> it is given:
  the assignments \<open>mappings[m._id] = base_id\<close> that are executed. A call that raises ends
  the traversal unless the loop over the children catches the exception.
\<close>

fun visited :: "'t renderer \<Rightarrow> 't renderer \<Rightarrow> 't node \<Rightarrow> bool \<Rightarrow> string \<Rightarrow> (string \<times> string) list"
  and visited_children ::
    "'t renderer \<Rightarrow> 't renderer \<Rightarrow> string \<Rightarrow> nat \<Rightarrow> 't node list \<Rightarrow> (string \<times> string) list"
where
  "visited script render (DualMap i t a b) nested base_id =
     (i, base_id) #
     (if \<not> nested then visited script render a False ''0''
      else visited script render a True ''0'' @
           (case snd (snd (underscore_generate_leaflet_string script render a True ''0'' [])) of
              Inl e \<Rightarrow> []
            | Inr leaflet1 \<Rightarrow> visited script render b True ''0''))"
| "visited script render (Node i t cs) nested base_id =
     (i, base_id) #
     (case own_snippet script render (Node base_id t cs) of
        Inl e \<Rightarrow> []
      | Inr leaflet \<Rightarrow> if nested then visited_children script render base_id 0 cs else [])"
| "visited_children script render base_id idx [] = []"
| "visited_children script render base_id idx (child # rest) =
     visited script render child True (child_id base_id idx) @
     (case snd (snd (underscore_generate_leaflet_string script render child True (child_id base_id idx) [])) of
        Inr s \<Rightarrow> visited_children script render base_id (Suc idx) rest
      | Inl e \<Rightarrow>
          if e = UndefinedError \<or> e = AttributeError
          then visited_children script render base_id (Suc idx) rest else [])"

text \<open>Executing a list of dictionary assignments \<open>mappings[k] = v\<close> in order.\<close>

definition record_all :: "(string \<times> string) list \<Rightarrow> mappings \<Rightarrow> mappings" where
  "record_all kvs mappings = fold (\<lambda>(k, v). AList.update k v) kvs mappings"

text \<open>
  The scripts that the recursive calls for the children return, in insertion order; a child
  whose call raises contributes none.
\<close>

fun child_scripts :: "'t renderer \<Rightarrow> 't renderer \<Rightarrow> string \<Rightarrow> nat \<Rightarrow> 't node list \<Rightarrow> string list" where
  "child_scripts script render base_id idx [] = []"
| "child_scripts script render base_id idx (child # rest) =
     (case snd (snd (underscore_generate_leaflet_string script render child True (child_id base_id idx) [])) of
        Inr s \<Rightarrow> [s]
      | Inl e \<Rightarrow> [])
     @ child_scripts script render base_id (Suc idx) rest"



section \<open>Re-mount key\<close>

text \<open>The character classes \<open>[a-z0-9]\<close> and \<open>[-a-z0-9]\<close> of the two patterns.\<close>

definition id_char :: "char \<Rightarrow> bool" where
  "id_char c = (let n = (of_char c :: nat) in (97 \<le> n \<and> n \<le> 122) \<or> (48 \<le> n \<and> n \<le> 57))"

definition url_char :: "char \<Rightarrow> bool" where
  "url_char c = (c = CHR ''-'' \<or> id_char c)"

text \<open>
  A match of \<open>_[a-z0-9]+\<close> at the head of the text, returning what follows the match:
  an underscore and the longest non-empty run of class characters.
\<close>

definition match_id :: "string \<Rightarrow> string option" where
  "match_id s =
     (case s of
        [] \<Rightarrow> None
      | c # cs \<Rightarrow>
          if c = CHR ''_'' \<and> takeWhile id_char cs \<noteq> [] then Some (dropWhile id_char cs) else None)"

text \<open>
  A match of \<open>maps\/[-a-z0-9]+\/\<close> at the head of the text, returning what follows the
  match. The slash is outside the class, so the greedy run is the only candidate: the match
  exists exactly when the longest run is non-empty and a slash follows it.
\<close>

definition match_url :: "string \<Rightarrow> string option" where
  "match_url s =
     (if prefix ''maps/'' s then
        (let r = drop 5 s in
         if takeWhile url_char r \<noteq> [] then
           (case dropWhile url_char r of
              [] \<Rightarrow> None
            | c # rest \<Rightarrow> if c = CHR ''/'' then Some rest else None)
         else None)
      else None)"

lemma match_id_shorter: "match_id s = Some r \<Longrightarrow> length r < length s"
  by (auto simp: match_id_def less_Suc_eq_le length_dropWhile_le split: list.splits if_splits)

lemma match_url_shorter: "match_url s = Some r \<Longrightarrow> length r < length s"
proof -
  assume a: "match_url s = Some r"
  then have "dropWhile url_char (drop 5 s) = CHR ''/'' # r"
    by (auto simp: match_url_def Let_def split: list.splits if_splits)
  then have "length r < length (dropWhile url_char (drop 5 s))"
    by simp
  also have "\<dots> \<le> length (drop 5 s)"
    by (rule length_dropWhile_le)
  also have "\<dots> \<le> length s"
    by simp
  finally show ?thesis .
qed

text \<open>\<open>re.sub(r"(_[a-z0-9]+)", "", s)\<close>: scan from the left, delete each match, copy the rest.\<close>

function sub_id :: "string \<Rightarrow> string" where
  "sub_id [] = []"
| "sub_id (c # cs) =
     (case match_id (c # cs) of Some r \<Rightarrow> sub_id r | None \<Rightarrow> c # sub_id cs)"
  by pat_completeness auto
termination
  by (relation "measure length") (auto dest: match_id_shorter)

text \<open>\<open>re.sub(r"(maps\/[-a-z0-9]+\/)", "", s)\<close>\<close>

function sub_url :: "string \<Rightarrow> string" where
  "sub_url [] = []"
| "sub_url (c # cs) =
     (case match_url (c # cs) of Some r \<Rightarrow> sub_url r | None \<Rightarrow> c # sub_url cs)"
  by pat_completeness auto
termination
  by (relation "measure length") (auto dest: match_url_shorter)

text \<open>\<open>str(key)\<close> for a key that is a string or \<open>None\<close>.\<close>

definition str_key :: "string option \<Rightarrow> string" where
  "str_key key = (case key of None \<Rightarrow> ''None'' | Some k \<Rightarrow> k)"

text \<open>The text that is hashed, the final value of the local variable \<open>standardized_js\<close>.\<close>

definition standardized_js :: "string \<Rightarrow> string option \<Rightarrow> string" where
  "standardized_js js_string key =
     sub_url (sub_id js_string @ str_key key) @ str_key key"

text \<open>
  \<open>generate_js_hash(js_string, key)\<close>. The digest
  \<open>hashlib.sha256(text.encode()).hexdigest()\<close> belongs to the standard library and is a
  parameter.
\<close>

definition generate_js_hash :: "(string \<Rightarrow> string) \<Rightarrow> string \<Rightarrow> string option \<Rightarrow> string" where
  "generate_js_hash sha256_hexdigest js_string key = sha256_hexdigest (standardized_js js_string key)"

section \<open>Bounds and defaults\<close>

text \<open>
  A corner is a list of coordinates; a coordinate is a number or Python's \<open>None\<close>. The
  number type is left open.
\<close>

type_synonym 'c corner_dict = "(string \<times> 'c option) list"
type_synonym 'c bounds_dict = "(string \<times> 'c corner_dict) list"

text \<open>
  \<open>bounds_to_dict(bounds_list)\<close>. Unpacking \<open>southwest, northeast = bounds_list\<close> raises
  \<open>ValueError\<close> unless the list has two elements, and indexing a corner raises
  \<open>IndexError\<close> when it is too short.
\<close>

definition bounds_to_dict :: "'c option list list \<Rightarrow> error + 'c bounds_dict" where
  "bounds_to_dict bounds_list =
     (case bounds_list of
        [southwest, northeast] \<Rightarrow>
          if length southwest < 2 \<or> length northeast < 2 then Inl IndexError
          else Inr [(''_southWest'', [(''lat'', southwest ! 0), (''lng'', southwest ! 1)]),
                    (''_northEast'', [(''lat'', northeast ! 0), (''lng'', northeast ! 1)])]
      | _ \<Rightarrow> Inl ValueError)"

text \<open>
  The \<open>try: bounds = fig.get_bounds() except AttributeError: ...\<close> block; the argument is what
  the call \<open>fig.get_bounds()\<close> does.
\<close>

definition resolve_bounds :: "error + 'c option list list \<Rightarrow> error + 'c option list list" where
  "resolve_bounds get_bounds =
     (case get_bounds of
        Inr bounds \<Rightarrow> Inr bounds
      | Inl AttributeError \<Rightarrow> Inr [[None, None], [None, None]]
      | Inl e \<Rightarrow> Inl e)"

text \<open>The values of the defaults dictionary.\<close>

datatype ('c, 'z) default_value =
    PyNone
  | Bounds "'c bounds_dict"
  | Zoom 'z
  | EmptyDict

text \<open>
  \<open>fig.options.get("zoom") if hasattr(fig, "options") else {}\<close>; the argument is \<open>None\<close>
  when the element has no \<open>options\<close> attribute.
\<close>

definition zoom_default :: "(string \<rightharpoonup> 'z) option \<Rightarrow> ('c, 'z) default_value" where
  "zoom_default options =
     (case options of
        None \<Rightarrow> EmptyDict
      | Some opts \<Rightarrow> (case opts ''zoom'' of None \<Rightarrow> PyNone | Some z \<Rightarrow> Zoom z))"

text \<open>The dictionary \<open>_defaults\<close> of \<open>st_folium\<close>, in the order of its literal.\<close>

definition all_defaults ::
    "'c bounds_dict \<Rightarrow> (string \<rightharpoonup> 'z) option \<Rightarrow> (string \<times> ('c, 'z) default_value) list" where
  "all_defaults bounds options =
     [(''last_clicked'', PyNone),
      (''last_object_clicked'', PyNone),
      (''all_drawings'', PyNone),
      (''last_active_drawing'', PyNone),
      (''bounds'', Bounds bounds),
      (''zoom'', zoom_default options),
      (''last_circle_radius'', PyNone),
      (''last_circle_polygon'', PyNone)]"

text \<open>
  The part of \<open>st_folium\<close> that resolves the defaults: the bounds with their fallback, the
  dictionary \<open>_defaults\<close>, and the comprehension that keeps the keys in
  \<open>returned_objects\<close>, or all of them when it is \<open>None\<close>.
\<close>

definition st_folium_defaults ::
    "error + 'c option list list \<Rightarrow> (string \<rightharpoonup> 'z) option \<Rightarrow> string list option
      \<Rightarrow> error + (string \<times> ('c, 'z) default_value) list" where
  "st_folium_defaults get_bounds options returned_objects =
     (case resolve_bounds get_bounds of
        Inl e \<Rightarrow> Inl e
      | Inr bounds \<Rightarrow>
          (case bounds_to_dict bounds of
             Inl e \<Rightarrow> Inl e
           | Inr d \<Rightarrow>
               Inr (filter (\<lambda>(k, v). returned_objects = None \<or> k \<in> set (the returned_objects))
                      (all_defaults d options))))"

section \<open>The traversal and the mappings it is given\<close>

lemma record_all_simps [simp]:
  "record_all [] mp = mp"
  "record_all ((k, v) # kvs) mp = record_all kvs (AList.update k v mp)"
  "record_all (xs @ ys) mp = record_all ys (record_all xs mp)"
  by (simp_all add: record_all_def)

lemma children_loop_indep:
  assumes P: "\<And>c b mp. c \<in> set cs \<Longrightarrow>
      fst (underscore_generate_leaflet_string script render c True b mp)
        = fst (underscore_generate_leaflet_string script render c True b [])
    \<and> snd (snd (underscore_generate_leaflet_string script render c True b mp))
        = snd (snd (underscore_generate_leaflet_string script render c True b []))
    \<and> fst (snd (underscore_generate_leaflet_string script render c True b mp))
        = record_all (visited script render c True b) mp"
  shows "fst (children_loop script render base_id idx cs mp leaflet)
     = fst (children_loop script render base_id idx cs [] leaflet)
   \<and> snd (snd (children_loop script render base_id idx cs mp leaflet))
     = snd (snd (children_loop script render base_id idx cs [] leaflet))
   \<and> fst (snd (children_loop script render base_id idx cs mp leaflet))
     = record_all (visited_children script render base_id idx cs) mp"
  using P
proof (induction cs arbitrary: idx mp leaflet)
  case Nil
  then show ?case by simp
next
  case (Cons child rest)
  let ?G = "underscore_generate_leaflet_string script render child True (child_id base_id idx)"
  obtain c1 mp1 r1 where e1: "?G mp = (c1, mp1, r1)"
    by (cases "?G mp") auto
  obtain c0 mp0 r0 where e0: "?G [] = (c0, mp0, r0)"
    by (cases "?G []") auto
  have c: "c1 = c0" "r1 = r0" "mp1 = record_all (visited script render child True (child_id base_id idx)) mp"
    using Cons.prems [of child "child_id base_id idx" mp] e1 e0 by simp_all
  have ih: "\<And>mp' l. fst (children_loop script render base_id (Suc idx) rest mp' l)
       = fst (children_loop script render base_id (Suc idx) rest [] l)
     \<and> snd (snd (children_loop script render base_id (Suc idx) rest mp' l))
       = snd (snd (children_loop script render base_id (Suc idx) rest [] l))
     \<and> fst (snd (children_loop script render base_id (Suc idx) rest mp' l))
       = record_all (visited_children script render base_id (Suc idx) rest) mp'"
    by (rule Cons.IH, rule Cons.prems, simp)
  show ?case
  proof (cases r0)
    case (Inl e)
    show ?thesis
      using ih [of mp1 leaflet] ih [of mp0 leaflet]
      by (simp add: e1 e0 c Inl case_prod_beta)
  next
    case (Inr s)
    show ?thesis
      using ih [of mp1 "leaflet @ newline @ s"] ih [of mp0 "leaflet @ newline @ s"]
      by (simp add: e1 e0 c Inr case_prod_beta)
  qed
qed

lemma traversal_indep:
  "fst (underscore_generate_leaflet_string script render m nested base_id mp)
     = fst (underscore_generate_leaflet_string script render m nested base_id [])
   \<and> snd (snd (underscore_generate_leaflet_string script render m nested base_id mp))
     = snd (snd (underscore_generate_leaflet_string script render m nested base_id []))
   \<and> fst (snd (underscore_generate_leaflet_string script render m nested base_id mp))
     = record_all (visited script render m nested base_id) mp"
proof (induction m arbitrary: nested base_id mp)
  case (Node i t cs)
  have L: "\<And>mp' l. fst (children_loop script render base_id 0 cs mp' l)
       = fst (children_loop script render base_id 0 cs [] l)
     \<and> snd (snd (children_loop script render base_id 0 cs mp' l))
       = snd (snd (children_loop script render base_id 0 cs [] l))
     \<and> fst (snd (children_loop script render base_id 0 cs mp' l))
       = record_all (visited_children script render base_id 0 cs) mp'"
    by (rule children_loop_indep) (rule Node.IH)
  show ?case
  proof (cases "own_snippet script render (Node base_id t cs)")
    case (Inl e)
    then show ?thesis by simp
  next
    case (Inr leaflet)
    show ?thesis
      using L [of "AList.update i base_id mp" leaflet] L [of "AList.update i base_id []" leaflet]
      by (simp add: Inr case_prod_beta)
  qed
next
  case (DualMap i t a b)
  let ?G = "underscore_generate_leaflet_string script render"
  show ?case
  proof (cases nested)
    case False
    show ?thesis
      using DualMap.IH(1) [of False "''0''" "AList.update i base_id mp"]
        DualMap.IH(1) [of False "''0''" "[(i, base_id)]"]
      by (simp add: False case_prod_beta)
  next
    case True
    obtain a1 mp1 r1 where e1: "?G a True ''0'' (AList.update i base_id mp) = (a1, mp1, r1)"
      by (cases "?G a True ''0'' (AList.update i base_id mp)") auto
    obtain a0 mp0 r0 where e0: "?G a True ''0'' [(i, base_id)] = (a0, mp0, r0)"
      by (cases "?G a True ''0'' [(i, base_id)]") auto
    obtain a2 mp2 r2 where e2: "?G a True ''0'' [] = (a2, mp2, r2)"
      by (cases "?G a True ''0'' []") auto
    have c: "a1 = a2" "r1 = r2" "a0 = a2" "r0 = r2"
      "mp1 = record_all (visited script render a True ''0'') (AList.update i base_id mp)"
      using DualMap.IH(1) [of True "''0''" "AList.update i base_id mp"]
        DualMap.IH(1) [of True "''0''" "[(i, base_id)]"] e1 e0 e2
      by simp_all
    show ?thesis
    proof (cases r2)
      case (Inl e)
      then show ?thesis
        by (simp add: True e1 e0 e2 c)
    next
      case (Inr l1)
      obtain b1 mq1 s1 where f1: "?G b True ''0'' mp1 = (b1, mq1, s1)"
        by (cases "?G b True ''0'' mp1") auto
      obtain b0 mq0 s0 where f0: "?G b True ''0'' mp0 = (b0, mq0, s0)"
        by (cases "?G b True ''0'' mp0") auto
      have d: "b1 = b0" "s1 = s0"
        "mq1 = record_all (visited script render b True ''0'') mp1"
        using DualMap.IH(2) [of True "''0''" mp1] DualMap.IH(2) [of True "''0''" mp0] f1 f0
        by simp_all
      show ?thesis
        using e1 e0 e2 f1 f0
        by (simp add: True c d Inr split: sum.splits)
    qed
  qed
qed

text \<open>
  The outcome of a call, and of the loop over the children, does not depend on the dictionary
  it is given. When the loop over the first children returns, the loop over a longer list
  goes on from the script it returned.
\<close>

lemma loop_outcome_indep:
  "snd (snd (children_loop script render base_id idx cs mp leaflet))
     = snd (snd (children_loop script render base_id idx cs mp' leaflet))"
proof -
  have "snd (snd (children_loop script render base_id idx cs m leaflet))
     = snd (snd (children_loop script render base_id idx cs [] leaflet))" for m
    using children_loop_indep [OF traversal_indep] by blast
  from this [of mp] this [of mp'] show ?thesis by simp
qed

lemma outcome_indep:
  "snd (snd (underscore_generate_leaflet_string script render m nested base_id mp))
     = snd (snd (underscore_generate_leaflet_string script render m nested base_id mp'))"
  using traversal_indep [of script render m nested base_id mp]
    traversal_indep [of script render m nested base_id mp']
  by simp

lemma children_loop_append:
  "snd (snd (children_loop script render base_id idx pre mp leaflet)) = Inr acc \<Longrightarrow>
   snd (snd (children_loop script render base_id idx (pre @ cs) mp leaflet))
     = snd (snd (children_loop script render base_id (idx + length pre) cs mp' acc))"
proof (induction pre arbitrary: idx mp leaflet)
  case Nil
  then show ?case
    using loop_outcome_indep [of script render base_id idx cs mp leaflet mp'] by simp
next
  case (Cons c pre)
  let ?G = "underscore_generate_leaflet_string script render c True (child_id base_id idx) mp"
  obtain c1 mp1 r1 where g: "?G = (c1, mp1, r1)"
    by (cases ?G) auto
  show ?case
  proof (cases r1)
    case (Inr s)
    have "snd (snd (children_loop script render base_id (Suc idx) pre mp1 (leaflet @ newline @ s))) = Inr acc"
      using Cons.prems by (simp add: g Inr case_prod_beta)
    then have "snd (snd (children_loop script render base_id (Suc idx) (pre @ cs) mp1 (leaflet @ newline @ s)))
      = snd (snd (children_loop script render base_id (Suc idx + length pre) cs mp' acc))"
      by (rule Cons.IH)
    then show ?thesis
      by (simp add: g Inr case_prod_beta)
  next
    case (Inl e)
    show ?thesis
    proof (cases "e = UndefinedError \<or> e = AttributeError")
      case True
      have "snd (snd (children_loop script render base_id (Suc idx) pre mp1 leaflet)) = Inr acc"
        using Cons.prems True by (simp add: g Inl case_prod_beta)
      then have "snd (snd (children_loop script render base_id (Suc idx) (pre @ cs) mp1 leaflet))
        = snd (snd (children_loop script render base_id (Suc idx + length pre) cs mp' acc))"
        by (rule Cons.IH)
      then show ?thesis
        using True by (simp add: g Inl case_prod_beta)
    next
      case False
      then show ?thesis
        using Cons.prems by (simp add: g Inl)
    qed
  qed
qed

section \<open>Occurrences of a key after the substitution pass\<close>










section \<open>Identifier assignment and the identifier mapping\<close>

text \<open>
  C2. With a script that renders, an element with two children is given \<open>base_id\<close>
  and its children \<open>base_id_0\<close> and \<open>base_id_1\<close>, in insertion order. A \<open>DualMap\<close> is
  given \<open>base_id\<close>, and both of its sub-maps are given \<open>0\<close>, whatever \<open>base_id\<close> is:
  the recursive calls for \<open>m.m1\<close> and \<open>m.m2\<close> leave \<open>base_id\<close> at its default. The
  first sub-map does not keep the base identifier, and the second is not given an
  identifier distinct from the first.
\<close>

theorem dual_map_sub_maps_share_id:
  "underscore_generate_leaflet_string (\<lambda>n. Inr (f n)) render
       (DualMap i t (Node ia ta []) (Node ib tb [])) True base_id []
     = (DualMap base_id t (Node ''0'' ta []) (Node ''0'' tb []),
        AList.update ib ''0'' (AList.update ia ''0'' [(i, base_id)]),
        Inr (f (Node ''0'' ta []) @ newline @ f (Node ''0'' tb [])
             @ f (DualMap base_id t (Node ''0'' ta []) (Node ''0'' tb []))))
   \<and> underscore_generate_leaflet_string (\<lambda>n. Inr (f n)) render
       (Node i t [Node ia ta [], Node ib tb []]) True base_id []
     = (Node base_id t [Node (base_id @ ''_0'') ta [], Node (base_id @ ''_1'') tb []],
        AList.update ib (base_id @ ''_1'') (AList.update ia (base_id @ ''_0'') [(i, base_id)]),
        Inr (f (Node base_id t [Node ia ta [], Node ib tb []]) @ newline @ f (Node (base_id @ ''_0'') ta [])
             @ newline @ f (Node (base_id @ ''_1'') tb [])))"
  by (simp add: own_snippet_def child_id_def str_nat.simps [of 0] str_nat.simps [of "Suc 0"] digit_char_def)





section \<open>Order of the snippets\<close>

text \<open>
  When the loop over the children returns, its script is the script it started from followed
  by a newline and the script of each child that rendered. A replacement whose key has no
  newline works on each line of the script separately.
\<close>

lemma children_loop_scripts:
  "snd (snd (children_loop script render base_id idx cs mp leaflet)) = Inr out \<Longrightarrow>
   out = leaflet @ concat (map (\<lambda>s. newline @ s) (child_scripts script render base_id idx cs))"
proof (induction cs arbitrary: idx mp leaflet)
  case Nil
  then show ?case by simp
next
  case (Cons c cs)
  let ?G = "underscore_generate_leaflet_string script render c True (child_id base_id idx)"
  obtain c1 mp1 r1 where g: "?G mp = (c1, mp1, r1)"
    by (cases "?G mp") auto
  have r: "snd (snd (?G [])) = r1"
    using outcome_indep [of script render c True "child_id base_id idx" "[]" mp] g by simp
  show ?case
  proof (cases r1)
    case (Inr s)
    have "snd (snd (children_loop script render base_id (Suc idx) cs mp1 (leaflet @ newline @ s))) = Inr out"
      using Cons.prems by (simp add: g Inr case_prod_beta)
    then have "out = (leaflet @ newline @ s)
        @ concat (map (\<lambda>s. newline @ s) (child_scripts script render base_id (Suc idx) cs))"
      by (rule Cons.IH)
    then show ?thesis
      by (simp add: r Inr)
  next
    case (Inl e)
    show ?thesis
    proof (cases "e = UndefinedError \<or> e = AttributeError")
      case True
      have "snd (snd (children_loop script render base_id (Suc idx) cs mp1 leaflet)) = Inr out"
        using Cons.prems True by (simp add: g Inl case_prod_beta)
      then have "out = leaflet
          @ concat (map (\<lambda>s. newline @ s) (child_scripts script render base_id (Suc idx) cs))"
        by (rule Cons.IH)
      then show ?thesis
        by (simp add: r Inl)
    next
      case False
      then show ?thesis
        using Cons.prems by (simp add: g Inl)
    qed
  qed
qed

lemma replace_nonempty_newline:
  "CHR 0x0A \<notin> set old \<Longrightarrow>
   replace_nonempty old new (x @ CHR 0x0A # y)
     = replace_nonempty old new x @ CHR 0x0A # replace_nonempty old new y"
proof (induction old new x rule: replace_nonempty.induct)
  case (1 old new)
  have "\<not> (old \<noteq> [] \<and> prefix old (CHR 0x0A # y))"
    using "1.prems" by (cases old) auto
  then have "replace_nonempty old new (CHR 0x0A # y) = CHR 0x0A # replace_nonempty old new y"
    by auto
  then show ?case by simp
next
  case (2 old new c cs)
  show ?case
  proof (cases "old \<noteq> [] \<and> prefix old (c # cs)")
    case True
    then have len: "length old \<le> length (c # cs)"
      by (auto dest: prefix_length_le)
    have p: "prefix old ((c # cs) @ CHR 0x0A # y)"
      using True by (auto intro: prefix_prefix simp del: append_Cons)
    have d: "drop (length old) ((c # cs) @ CHR 0x0A # y) = drop (length old) (c # cs) @ CHR 0x0A # y"
      using len by (simp del: drop_Suc_Cons append_Cons)
    have "replace_nonempty old new ((c # cs) @ CHR 0x0A # y)
        = new @ replace_nonempty old new (drop (length old) (c # cs) @ CHR 0x0A # y)"
      using True p d by (simp del: drop_Suc_Cons)
    also have "\<dots> = new @ replace_nonempty old new (drop (length old) (c # cs))
        @ CHR 0x0A # replace_nonempty old new y"
      using "2.IH"(1) [OF True "2.prems"] by simp
    also have "\<dots> = replace_nonempty old new (c # cs) @ CHR 0x0A # replace_nonempty old new y"
      using True by (simp del: drop_Suc_Cons)
    finally show ?thesis .
  next
    case False
    have np: "\<not> (old \<noteq> [] \<and> prefix old ((c # cs) @ CHR 0x0A # y))"
    proof
      assume a: "old \<noteq> [] \<and> prefix old ((c # cs) @ CHR 0x0A # y)"
      then consider "prefix old (c # cs)"
        | us where "old = (c # cs) @ us" "prefix us (CHR 0x0A # y)"
        unfolding prefix_append by blast
      then show False
      proof cases
        case 1
        with a False show False by simp
      next
        case 2
        show False
        proof (cases us)
          case Nil
          with 2 a False show False by simp
        next
          case (Cons u us')
          with 2 have "u = CHR 0x0A" by simp
          with Cons 2 "2.prems" show False by simp
        qed
      qed
    qed
    have "replace_nonempty old new ((c # cs) @ CHR 0x0A # y)
        = c # replace_nonempty old new (cs @ CHR 0x0A # y)"
      using np by auto
    also have "\<dots> = c # replace_nonempty old new cs @ CHR 0x0A # replace_nonempty old new y"
      using "2.IH"(2) [OF False "2.prems"] by simp
    also have "\<dots> = replace_nonempty old new (c # cs) @ CHR 0x0A # replace_nonempty old new y"
      using False by auto
    finally show ?thesis .
  qed
qed

lemma str_replace_newline:
  "CHR 0x0A \<notin> set old \<Longrightarrow>
   str_replace (x @ newline @ y) old new = str_replace x old new @ newline @ str_replace y old new"
  by (simp add: str_replace_def newline_def replace_nonempty_newline)

lemma substitute_newline:
  "\<forall>k \<in> fst ` set kvs. CHR 0x0A \<notin> set k \<Longrightarrow>
   substitute kvs (x @ newline @ y) = substitute kvs x @ newline @ substitute kvs y"
proof (induction kvs arbitrary: x y)
  case Nil
  then show ?case by (simp add: substitute_def)
next
  case (Cons kv kvs)
  obtain k v where kv: "kv = (k, v)" by (cases kv)
  have k: "CHR 0x0A \<notin> set k"
    using Cons.prems by (simp add: kv)
  have rest: "\<forall>k \<in> fst ` set kvs. CHR 0x0A \<notin> set k"
    using Cons.prems by simp
  have step: "substitute (kv # kvs) z = substitute kvs (str_replace z k v)" for z
    by (simp add: substitute_def kv)
  show ?case
    by (simp only: step str_replace_newline [OF k] Cons.IH [OF rest])
qed

lemma substitute_joined:
  "\<forall>k \<in> fst ` set kvs. CHR 0x0A \<notin> set k \<Longrightarrow>
   substitute kvs (own @ concat (map (\<lambda>s. newline @ s) ss))
     = substitute kvs own @ concat (map (\<lambda>s. newline @ substitute kvs s) ss)"
proof (induction ss arbitrary: own)
  case Nil
  then show ?case by simp
next
  case (Cons s ss)
  have "substitute kvs ((own @ newline @ s) @ concat (map (\<lambda>s. newline @ s) ss))
     = substitute kvs (own @ newline @ s) @ concat (map (\<lambda>s. newline @ substitute kvs s) ss)"
    using Cons.prems by (rule Cons.IH)
  then show ?case
    using substitute_newline [OF Cons.prems, of own s] by simp
qed

text \<open>
  C5. For an element that is not a \<open>DualMap\<close>, the script that the traversal returns
  is the element's own snippet followed, for each child in insertion order whose call
  returns, by a newline and the script of the child; when no key of the dictionary has a
  newline, the script that \<open>generate_leaflet_string\<close> returns is the same concatenation
  with the substitution pass applied to each piece. For a \<open>DualMap\<close> the script is the
  script of \<open>m1\<close>, a newline, the script of \<open>m2\<close>, and then the \<open>DualMap\<close>'s own
  script with no newline before it.
\<close>

theorem traversal_order:
  "(underscore_generate_leaflet_string script render (Node i t cs) True base_id [] = (m', mappings, Inr leaflet) \<longrightarrow>
      (\<exists>own. own_snippet script render (Node base_id t cs) = Inr own
        \<and> leaflet = own @ concat (map (\<lambda>s. newline @ s) (child_scripts script render base_id 0 cs))
        \<and> ((\<forall>k \<in> fst ` set mappings. CHR 0x0A \<notin> set k) \<longrightarrow>
             snd (generate_leaflet_string script render (Node i t cs) True base_id)
               = Inr (substitute mappings own
                      @ concat (map (\<lambda>s. newline @ substitute mappings s)
                                  (child_scripts script render base_id 0 cs))))))
   \<and> (underscore_generate_leaflet_string script render (DualMap j u a b) True dual_id []
        = (d', dual_mappings, Inr dual_leaflet) \<longrightarrow>
      (\<exists>leaflet1 leaflet2 sync.
          snd (snd (underscore_generate_leaflet_string script render a True ''0'' [])) = Inr leaflet1
        \<and> snd (snd (underscore_generate_leaflet_string script render b True ''0'' [])) = Inr leaflet2
        \<and> script d' = Inr sync
        \<and> dual_leaflet = leaflet1 @ newline @ leaflet2 @ sync))"
proof (intro conjI impI)
  assume run: "underscore_generate_leaflet_string script render (Node i t cs) True base_id []
      = (m', mappings, Inr leaflet)"
  show "\<exists>own. own_snippet script render (Node base_id t cs) = Inr own
        \<and> leaflet = own @ concat (map (\<lambda>s. newline @ s) (child_scripts script render base_id 0 cs))
        \<and> ((\<forall>k \<in> fst ` set mappings. CHR 0x0A \<notin> set k) \<longrightarrow>
             snd (generate_leaflet_string script render (Node i t cs) True base_id)
               = Inr (substitute mappings own
                      @ concat (map (\<lambda>s. newline @ substitute mappings s)
                                  (child_scripts script render base_id 0 cs))))"
  proof (cases "own_snippet script render (Node base_id t cs)")
    case (Inl e)
    with run show ?thesis by simp
  next
    case (Inr own)
    have "snd (snd (children_loop script render base_id 0 cs [(i, base_id)] own)) = Inr leaflet"
      using run by (simp add: Inr case_prod_beta Let_def)
    then have l: "leaflet = own @ concat (map (\<lambda>s. newline @ s) (child_scripts script render base_id 0 cs))"
      by (rule children_loop_scripts)
    have g: "snd (generate_leaflet_string script render (Node i t cs) True base_id)
        = Inr (substitute mappings leaflet)"
      by (simp only: generate_leaflet_string_def run prod.case sum.case snd_conv)
    have "snd (generate_leaflet_string script render (Node i t cs) True base_id)
               = Inr (substitute mappings own
                      @ concat (map (\<lambda>s. newline @ substitute mappings s)
                                  (child_scripts script render base_id 0 cs)))"
      if "\<forall>k \<in> fst ` set mappings. CHR 0x0A \<notin> set k"
      using substitute_joined [OF that, of own "child_scripts script render base_id 0 cs"]
      by (simp only: g l)
    with Inr l show ?thesis by blast
  qed
next
  assume run: "underscore_generate_leaflet_string script render (DualMap j u a b) True dual_id []
        = (d', dual_mappings, Inr dual_leaflet)"
  let ?G = "underscore_generate_leaflet_string script render"
  obtain a' mp1 r1 where ga: "?G a True ''0'' [(j, dual_id)] = (a', mp1, r1)"
    by (cases "?G a True ''0'' [(j, dual_id)]") auto
  obtain b' mp2 r2 where gb: "?G b True ''0'' mp1 = (b', mp2, r2)"
    by (cases "?G b True ''0'' mp1") auto
  from run obtain leaflet1 where r1: "r1 = Inr leaflet1"
    by (cases r1) (simp_all add: ga)
  from run obtain leaflet2 where r2: "r2 = Inr leaflet2"
    by (cases r2) (simp_all add: ga gb r1)
  from run obtain sync where s: "script (DualMap dual_id u a' b') = Inr sync"
    by (cases "script (DualMap dual_id u a' b')") (simp_all add: ga gb r1 r2)
  from run have d: "d' = DualMap dual_id u a' b'" and l: "dual_leaflet = leaflet1 @ newline @ leaflet2 @ sync"
    by (simp_all add: ga gb r1 r2 s)
  have "snd (snd (?G a True ''0'' [])) = Inr leaflet1"
    using outcome_indep [of script render a True "''0''" "[]" "[(j, dual_id)]"] ga r1 by simp
  moreover have "snd (snd (?G b True ''0'' [])) = Inr leaflet2"
    using outcome_indep [of script render b True "''0''" "[]" mp1] gb r2 by simp
  ultimately show "\<exists>leaflet1 leaflet2 sync.
          snd (snd (?G a True ''0'' [])) = Inr leaflet1
        \<and> snd (snd (?G b True ''0'' [])) = Inr leaflet2
        \<and> script d' = Inr sync
        \<and> dual_leaflet = leaflet1 @ newline @ leaflet2 @ sync"
    using s d l by blast
qed

theorem traversal_order_witness:
  "snd (generate_leaflet_string (\<lambda>n. Inr (template n @ ''_'' @ node_id n)) (\<lambda>n. Inl OtherError)
          (Node ''q1'' ''map'' [Node ''q2'' ''marker'' [], Node ''q3'' ''layer'' []]) True ''0'')
     = Inr (''map_0'' @ newline @ ''marker_0_0'' @ newline @ ''layer_0_1'')
   \<and> snd (snd (underscore_generate_leaflet_string
          (\<lambda>n. Inr (template n @ ''_'' @ node_id n)) (\<lambda>n. Inl OtherError)
          (DualMap ''q0'' ''sync'' (Node ''q1'' ''left'' []) (Node ''q2'' ''right'' [])) True ''map_div'' []))
     = Inr (''left_0'' @ newline @ ''right_0'' @ ''sync_map_div'')"
proof -
  let ?S = "\<lambda>n :: string node. (Inr (template n @ ''_'' @ node_id n) :: error + string)"
  let ?R = "\<lambda>n :: string node. (Inl OtherError :: error + string)"
  let ?m = "Node ''q1'' ''map'' [Node ''q2'' ''marker'' [], Node ''q3'' ''layer'' []]"
  let ?d = "DualMap ''q0'' ''sync'' (Node ''q1'' ''left'' []) (Node ''q2'' ''right'' [])"
  have run: "underscore_generate_leaflet_string ?S ?R ?m True ''0'' []
      = (Node ''0'' ''map'' [Node ''0_0'' ''marker'' [], Node ''0_1'' ''layer'' []],
         [(''q1'', ''0''), (''q2'', ''0_0''), (''q3'', ''0_1'')],
         Inr (''map_0'' @ newline @ ''marker_0_0'' @ newline @ ''layer_0_1''))"
    by (simp add: own_snippet_def child_id_def str_nat.simps [of 0] str_nat.simps [of "Suc 0"]
        digit_char_def)
  have "\<exists>own. own_snippet ?S ?R (Node ''0'' ''map'' [Node ''q2'' ''marker'' [], Node ''q3'' ''layer'' []]) = Inr own
      \<and> ''map_0'' @ newline @ ''marker_0_0'' @ newline @ ''layer_0_1''
          = own @ concat (map (\<lambda>s. newline @ s)
              (child_scripts ?S ?R ''0'' 0 [Node ''q2'' ''marker'' [], Node ''q3'' ''layer'' []]))
      \<and> ((\<forall>k \<in> fst ` set [(''q1'', ''0''), (''q2'', ''0_0''), (''q3'', ''0_1'')]. CHR 0x0A \<notin> set k) \<longrightarrow>
           snd (generate_leaflet_string ?S ?R ?m True ''0'')
             = Inr (substitute [(''q1'', ''0''), (''q2'', ''0_0''), (''q3'', ''0_1'')] own
                    @ concat (map (\<lambda>s. newline @ substitute [(''q1'', ''0''), (''q2'', ''0_0''), (''q3'', ''0_1'')] s)
                        (child_scripts ?S ?R ''0'' 0 [Node ''q2'' ''marker'' [], Node ''q3'' ''layer'' []]))))"
    by (rule traversal_order [THEN conjunct1, THEN mp, OF run])
  then have a: "snd (generate_leaflet_string ?S ?R ?m True ''0'')
      = Inr (''map_0'' @ newline @ ''marker_0_0'' @ newline @ ''layer_0_1'')"
    by (simp add: own_snippet_def child_id_def str_nat.simps [of 0] str_nat.simps [of "Suc 0"]
        digit_char_def substitute_def str_replace_def)
  have rund: "underscore_generate_leaflet_string ?S ?R ?d True ''map_div'' []
      = (DualMap ''map_div'' ''sync'' (Node ''0'' ''left'' []) (Node ''0'' ''right'' []),
         [(''q0'', ''map_div''), (''q1'', ''0''), (''q2'', ''0'')],
         Inr (''left_0'' @ newline @ ''right_0'' @ ''sync_map_div''))"
    by (simp add: own_snippet_def)
  have "\<exists>leaflet1 leaflet2 sync.
          snd (snd (underscore_generate_leaflet_string ?S ?R (Node ''q1'' ''left'' []) True ''0'' [])) = Inr leaflet1
        \<and> snd (snd (underscore_generate_leaflet_string ?S ?R (Node ''q2'' ''right'' []) True ''0'' [])) = Inr leaflet2
        \<and> ?S (DualMap ''map_div'' ''sync'' (Node ''0'' ''left'' []) (Node ''0'' ''right'' [])) = Inr sync
        \<and> ''left_0'' @ newline @ ''right_0'' @ ''sync_map_div'' = leaflet1 @ newline @ leaflet2 @ sync"
    by (rule traversal_order [THEN conjunct2, THEN mp, OF rund])
  then have b: "snd (snd (underscore_generate_leaflet_string ?S ?R ?d True ''map_div'' []))
      = Inr (''left_0'' @ newline @ ''right_0'' @ ''sync_map_div'')"
    by (simp only: rund snd_conv)
  from a b show ?thesis
    by (intro conjI)
qed

text \<open>
  The script of a \<open>DualMap\<close>: its own snippet \<open>sync_map_div\<close> comes after the snippets
  of its two sub-maps, and no newline separates it from the second.
\<close>

theorem dual_map_script_last:
  "snd (generate_leaflet_string (\<lambda>n. Inr (template n @ ''_'' @ node_id n)) (\<lambda>n. Inl OtherError)
          (DualMap ''q0'' ''sync'' (Node ''q1'' ''left'' []) (Node ''q2'' ''right'' [])) True ''map_div'')
     = Inr (''left_0'' @ newline @ ''right_0'' @ ''sync_map_div'')"
  by (simp add: generate_leaflet_string_def own_snippet_def substitute_def str_replace_def newline_def)


section \<open>Elements that differ only in their identifiers\<close>













section \<open>Error handling of the traversal\<close>

text \<open>
  C7. When the direct rendering \<open>m._template.module.script(m)\<close> of an element that is
  not a \<open>DualMap\<close> raises the templating failure \<open>UndefinedError\<close>, the element's own
  snippet is what rendering its raw template with an empty keyword context gives, and the
  traversal goes on from it: the failure of the direct rendering does not propagate. For a
  \<open>DualMap\<close> the call is outside the \<open>try\<close> block: when its two sub-maps have been
  assembled and its own script raises \<open>UndefinedError\<close>, the exception propagates out of
  \<open>_generate_leaflet_string\<close> and \<open>generate_leaflet_string\<close>, and the raw template is
  not rendered.
\<close>

theorem undefined_error_fallback:
  "(script (Node base_id t cs) = Inl UndefinedError \<longrightarrow>
      own_snippet script render (Node base_id t cs) = render (Node base_id t cs)
    \<and> underscore_generate_leaflet_string script render (Node i t cs) nested base_id mappings =
       (case render (Node base_id t cs) of
          Inl e \<Rightarrow> (Node base_id t cs, AList.update i base_id mappings, Inl e)
        | Inr leaflet \<Rightarrow>
            if nested then
              (case children_loop script render base_id 0 cs (AList.update i base_id mappings) leaflet of
                 (cs', mappings2, r) \<Rightarrow> (Node base_id t cs', mappings2, r))
            else (Node base_id t cs, AList.update i base_id mappings, Inr leaflet)))
   \<and> (underscore_generate_leaflet_string script render a True ''0'' (AList.update i base_id mappings)
        = (a', mappings1, Inr leaflet1) \<longrightarrow>
      underscore_generate_leaflet_string script render b True ''0'' mappings1
        = (b', mappings2, Inr leaflet2) \<longrightarrow>
      script (DualMap base_id t a' b') = Inl UndefinedError \<longrightarrow>
      underscore_generate_leaflet_string script render (DualMap i t a b) True base_id mappings
        = (DualMap base_id t a' b', mappings2, Inl UndefinedError)
      \<and> snd (generate_leaflet_string script render (DualMap i t a b) True base_id) = Inl UndefinedError)"
proof -
  have dual: "snd (generate_leaflet_string script render (DualMap i t a b) True base_id) = Inl UndefinedError"
    if a: "underscore_generate_leaflet_string script render a True ''0'' (AList.update i base_id mappings)
        = (a', mappings1, Inr leaflet1)"
    and b: "underscore_generate_leaflet_string script render b True ''0'' mappings1
        = (b', mappings2, Inr leaflet2)"
    and s: "script (DualMap base_id t a' b') = Inl UndefinedError"
  proof -
    have "underscore_generate_leaflet_string script render (DualMap i t a b) True base_id mappings
        = (DualMap base_id t a' b', mappings2, Inl UndefinedError)"
      by (simp add: a b s)
    then have "snd (snd (underscore_generate_leaflet_string script render (DualMap i t a b) True base_id []))
        = Inl UndefinedError"
      using traversal_indep [of script render "DualMap i t a b" True base_id mappings] by simp
    then show ?thesis
      by (cases "underscore_generate_leaflet_string script render (DualMap i t a b) True base_id []")
         (simp add: generate_leaflet_string_def)
  qed
  show ?thesis
    using dual by (simp add: own_snippet_def split: sum.splits)
qed

theorem undefined_error_fallback_witness:
  "underscore_generate_leaflet_string
     (\<lambda>n. Inl UndefinedError) (\<lambda>n. Inr (''popup_'' @ node_id n)) (Node ''5f9d'' () []) True ''0'' []
   = (Node ''0'' () [], [(''5f9d'', ''0'')], Inr ''popup_0'')
   \<and> snd (generate_leaflet_string
       (\<lambda>n. case n of Node j u cs \<Rightarrow> Inr (''map_'' @ j) | DualMap j u x y \<Rightarrow> Inl UndefinedError)
       (\<lambda>n. Inr ''fallback'')
       (DualMap ''7c1e'' () (Node ''5f9d'' () []) (Node ''8b2a'' () [])) True ''map_div'')
     = Inl UndefinedError"
proof -
  have n: "underscore_generate_leaflet_string
     (\<lambda>n. Inl UndefinedError) (\<lambda>n. Inr (''popup_'' @ node_id n)) (Node ''5f9d'' () []) True ''0'' []
   = (Node ''0'' () [], [(''5f9d'', ''0'')], Inr ''popup_0'')"
    using undefined_error_fallback [of "\<lambda>n. Inl UndefinedError" "''0''" "()" "[]"
      "\<lambda>n. Inr (''popup_'' @ node_id n)" "''5f9d''" True "[]"]
    by simp
  let ?S = "\<lambda>n :: unit node. case n of Node j u cs \<Rightarrow> (Inr (''map_'' @ j) :: error + string)
                | DualMap j u x y \<Rightarrow> Inl UndefinedError"
  let ?R = "\<lambda>n :: unit node. (Inr ''fallback'' :: error + string)"
  have d: "snd (generate_leaflet_string ?S ?R
       (DualMap ''7c1e'' () (Node ''5f9d'' () []) (Node ''8b2a'' () [])) True ''map_div'')
     = Inl UndefinedError"
    using undefined_error_fallback [of ?S "''map_div''" "()" "[]" ?R "''7c1e''" True "[]"
      "Node ''5f9d'' () []" "Node ''0'' () []" "[(''7c1e'', ''map_div''), (''5f9d'', ''0'')]" "''map_0''"
      "Node ''8b2a'' () []" "Node ''0'' () []"
      "[(''7c1e'', ''map_div''), (''5f9d'', ''0''), (''8b2a'', ''0'')]" "''map_0''"]
    by (simp add: own_snippet_def)
  from n d show ?thesis by simp
qed

text \<open>
  A \<open>DualMap\<close> whose own script raises \<open>UndefinedError\<close>, with a raw template that would
  render: the call raises \<open>UndefinedError\<close>.
\<close>

theorem dual_map_no_fallback:
  "underscore_generate_leaflet_string
       (\<lambda>n. case n of Node j u cs \<Rightarrow> Inr (''map_'' @ j) | DualMap j u x y \<Rightarrow> Inl UndefinedError)
       (\<lambda>n. Inr ''fallback'')
       (DualMap ''7c1e'' () (Node ''5f9d'' () []) (Node ''8b2a'' () [])) True ''map_div'' []
     = (DualMap ''map_div'' () (Node ''0'' () []) (Node ''0'' () []),
        [(''7c1e'', ''map_div''), (''5f9d'', ''0''), (''8b2a'', ''0'')], Inl UndefinedError)"
  by (simp add: own_snippet_def)


text \<open>
  C6. Let the loop over the children before a child return the script \<open>acc\<close>. When the
  recursive call for the child raises \<open>UndefinedError\<close> or \<open>AttributeError\<close>, the loop
  goes on with the next child and with \<open>acc\<close> unchanged; when it raises anything else, the
  loop raises the same exception, and so do \<open>_generate_leaflet_string\<close> and
  \<open>generate_leaflet_string\<close> called on the parent, whatever the position of the child.
\<close>

theorem child_error_handling:
  assumes before: "snd (snd (children_loop script render base_id 0 pre mappings leaflet)) = Inr acc"
    and child: "snd (snd (underscore_generate_leaflet_string script render child True
                       (child_id base_id (length pre)) mappings)) = Inl e"
  shows "snd (snd (children_loop script render base_id 0 (pre @ child # rest) mappings leaflet)) =
           (if e = UndefinedError \<or> e = AttributeError
            then snd (snd (children_loop script render base_id (Suc (length pre)) rest mappings acc))
            else Inl e)
    \<and> (e \<noteq> UndefinedError \<longrightarrow> e \<noteq> AttributeError \<longrightarrow>
        own_snippet script render (Node base_id t (pre @ child # rest)) = Inr leaflet \<longrightarrow>
        snd (snd (underscore_generate_leaflet_string script render (Node i t (pre @ child # rest))
                    True base_id mappings)) = Inl e
      \<and> snd (generate_leaflet_string script render (Node i t (pre @ child # rest)) True base_id) = Inl e)"
proof -
  have step: "snd (snd (children_loop script render base_id (length pre) (child # rest) mp acc)) =
           (if e = UndefinedError \<or> e = AttributeError
            then snd (snd (children_loop script render base_id (Suc (length pre)) rest mappings acc))
            else Inl e)" for mp
  proof -
    let ?G = "underscore_generate_leaflet_string script render child True (child_id base_id (length pre)) mp"
    have "snd (snd ?G) = Inl e"
      using child outcome_indep [of script render child True "child_id base_id (length pre)" mp mappings]
      by simp
    then obtain c1 mp1 where g: "?G = (c1, mp1, Inl e)"
      by (cases ?G) auto
    show ?thesis
      using loop_outcome_indep [of script render base_id "Suc (length pre)" rest mp1 acc mappings]
      by (simp add: g case_prod_beta)
  qed
  have whole: "snd (snd (children_loop script render base_id 0 (pre @ child # rest) mp leaflet)) =
           (if e = UndefinedError \<or> e = AttributeError
            then snd (snd (children_loop script render base_id (Suc (length pre)) rest mappings acc))
            else Inl e)" for mp
  proof -
    have "snd (snd (children_loop script render base_id 0 pre mp leaflet)) = Inr acc"
      using before loop_outcome_indep [of script render base_id 0 pre mp leaflet mappings] by simp
    then have "snd (snd (children_loop script render base_id 0 (pre @ child # rest) mp leaflet))
      = snd (snd (children_loop script render base_id (0 + length pre) (child # rest) mp acc))"
      by (rule children_loop_append)
    then show ?thesis
      using step [of mp] by simp
  qed
  have parent: "snd (snd (underscore_generate_leaflet_string script render (Node i t (pre @ child # rest))
                    True base_id mappings)) = Inl e
      \<and> snd (generate_leaflet_string script render (Node i t (pre @ child # rest)) True base_id) = Inl e"
    if other: "e \<noteq> UndefinedError" "e \<noteq> AttributeError"
      and own: "own_snippet script render (Node base_id t (pre @ child # rest)) = Inr leaflet"
  proof -
    have a: "snd (snd (underscore_generate_leaflet_string script render (Node i t (pre @ child # rest))
                    True base_id mp)) = Inl e" for mp
      using whole [of "AList.update i base_id mp"] other
      by (simp add: own case_prod_beta Let_def)
    have "snd (generate_leaflet_string script render (Node i t (pre @ child # rest)) True base_id) = Inl e"
      using a [of "[]"]
      by (cases "underscore_generate_leaflet_string script render (Node i t (pre @ child # rest)) True base_id []")
         (simp add: generate_leaflet_string_def)
    with a [of mappings] show ?thesis by simp
  qed
  from whole [of mappings] parent show ?thesis by blast
qed

theorem child_error_handling_witness:
  "snd (generate_leaflet_string
          (\<lambda>n. if template n = ''bad'' then Inl ValueError else Inr (template n @ ''_'' @ node_id n))
          (\<lambda>n. Inl OtherError)
          (Node ''q1'' ''map'' [Node ''q2'' ''marker'' [], Node ''q3'' ''bad'' [], Node ''q4'' ''popup'' []])
          True ''0'')
     = Inl ValueError"
proof -
  let ?S = "\<lambda>n :: string node. if template n = ''bad'' then (Inl ValueError :: error + string)
                else Inr (template n @ ''_'' @ node_id n)"
  let ?R = "\<lambda>n :: string node. (Inl OtherError :: error + string)"
  have before: "snd (snd (children_loop ?S ?R ''0'' 0 [Node ''q2'' ''marker'' []] [] ''map_0''))
      = Inr (''map_0'' @ newline @ ''marker_0_0'')"
    by (simp add: own_snippet_def child_id_def str_nat.simps [of 0] digit_char_def)
  have child: "snd (snd (underscore_generate_leaflet_string ?S ?R (Node ''q3'' ''bad'' []) True
                       (child_id ''0'' (length [Node ''q2'' ''marker'' []])) [])) = Inl ValueError"
    by (simp add: own_snippet_def)
  from child_error_handling [OF before child, of "[Node ''q4'' ''popup'' []]" "''map''" "''q1''"]
  show ?thesis
    by (simp add: own_snippet_def)
qed

section \<open>The re-mount key and the key argument\<close>

text \<open>
  C10. The key is converted with \<open>str\<close> before it is appended, once after each
  substitution, so the keys \<open>None\<close> and \<open>"None"\<close> give the same digest.
\<close>

theorem none_key_same_digest:
  "generate_js_hash sha256_hexdigest s None = generate_js_hash sha256_hexdigest s (Some ''None'')
   \<and> generate_js_hash sha256_hexdigest s key
       = sha256_hexdigest (sub_url (sub_id s @ str_key key) @ str_key key)"
  by (simp add: generate_js_hash_def standardized_js_def str_key_def)

section \<open>Bounds and defaults\<close>

text \<open>
  C8. When \<open>fig.get_bounds()\<close> raises \<open>AttributeError\<close>, the bounds are the
  null-coordinate corners, and the defaults are the entries of \<open>_defaults\<close> with the
  bounds value \<open>{"_southWest": {"lat": None, "lng": None}, "_northEast": {"lat": None,
  "lng": None}}\<close>, filtered by \<open>returned_objects\<close>.
\<close>

theorem bounds_fallback:
  "st_folium_defaults (Inl AttributeError) options returned_objects =
     Inr (filter (\<lambda>(k, v). returned_objects = None \<or> k \<in> set (the returned_objects))
            (all_defaults
               [(''_southWest'', [(''lat'', None), (''lng'', None)]),
                (''_northEast'', [(''lat'', None), (''lng'', None)])] options))
   \<and> resolve_bounds (Inl AttributeError) = Inr [[None, None], [None, None]]
   \<and> bounds_to_dict [[None, None], [None, None]] =
       Inr [(''_southWest'', [(''lat'', None), (''lng'', None)]),
            (''_northEast'', [(''lat'', None), (''lng'', None)])]"
  by (simp add: st_folium_defaults_def resolve_bounds_def bounds_to_dict_def)

theorem bounds_fallback_witness:
  "map_of (projr (st_folium_defaults (Inl AttributeError) (None :: (string \<rightharpoonup> nat) option) None)) ''bounds''
    = Some (Bounds [(''_southWest'', [(''lat'', None :: nat option), (''lng'', None)]),
                (''_northEast'', [(''lat'', None), (''lng'', None)])])"
proof -
  have "st_folium_defaults (Inl AttributeError) (None :: (string \<rightharpoonup> nat) option) None =
     Inr (filter (\<lambda>(k, v). (None :: string list option) = None \<or> k \<in> set (the None))
            (all_defaults
               [(''_southWest'', [(''lat'', None :: nat option), (''lng'', None)]),
                (''_northEast'', [(''lat'', None), (''lng'', None)])] None))"
    using bounds_fallback by blast
  then show ?thesis
    by (simp add: all_defaults_def)
qed

lemma map_fst_filter_keys:
  "map fst (filter (\<lambda>(k, v). Q k) xs) = filter Q (map fst xs)"
  by (induction xs) auto

lemma all_defaults_keys:
  "map fst (all_defaults bounds options) =
     [''last_clicked'', ''last_object_clicked'', ''all_drawings'', ''last_active_drawing'',
      ''bounds'', ''zoom'', ''last_circle_radius'', ''last_circle_polygon'']"
  by (simp add: all_defaults_def)

lemma all_defaults_zoom:
  "filter (\<lambda>(k, v). k \<in> set [''zoom'']) (all_defaults bounds options) = [(''zoom'', zoom_default options)]"
  by (simp add: all_defaults_def)

text \<open>
  C9. The defaults that are emitted have exactly the keys of \<open>_defaults\<close> that are members
  of \<open>returned_objects\<close>, in the order of \<open>_defaults\<close>, and all eight keys when
  \<open>returned_objects\<close> is \<open>None\<close>; with \<open>returned_objects = ["zoom"]\<close> the only entry
  is \<open>zoom\<close>.
\<close>

theorem defaults_filter:
  assumes "st_folium_defaults get_bounds options returned_objects = Inr d"
  shows "map fst d =
           filter (\<lambda>k. case returned_objects of None \<Rightarrow> True | Some ks \<Rightarrow> k \<in> set ks)
             [''last_clicked'', ''last_object_clicked'', ''all_drawings'', ''last_active_drawing'',
              ''bounds'', ''zoom'', ''last_circle_radius'', ''last_circle_polygon'']
         \<and> (returned_objects = Some [''zoom''] \<longrightarrow> d = [(''zoom'', zoom_default options)])"
proof -
  obtain b where d: "d = filter (\<lambda>(k, v). returned_objects = None \<or> k \<in> set (the returned_objects))
                      (all_defaults b options)"
    using assms by (auto simp: st_folium_defaults_def split: sum.splits)
  have P: "(\<lambda>k. returned_objects = None \<or> k \<in> set (the returned_objects))
         = (\<lambda>k. case returned_objects of None \<Rightarrow> True | Some ks \<Rightarrow> k \<in> set ks)"
    by (cases returned_objects) auto
  have "map fst d = filter (\<lambda>k. returned_objects = None \<or> k \<in> set (the returned_objects))
                      (map fst (all_defaults b options))"
    unfolding d by (rule map_fst_filter_keys)
  then have first: "map fst d =
           filter (\<lambda>k. case returned_objects of None \<Rightarrow> True | Some ks \<Rightarrow> k \<in> set ks)
             [''last_clicked'', ''last_object_clicked'', ''all_drawings'', ''last_active_drawing'',
              ''bounds'', ''zoom'', ''last_circle_radius'', ''last_circle_polygon'']"
    by (simp only: P all_defaults_keys)
  have second: "d = [(''zoom'', zoom_default options)]" if "returned_objects = Some [''zoom'']"
    using all_defaults_zoom [of b options] by (simp add: d that)
  from first second show ?thesis by blast
qed

theorem defaults_filter_witness:
  "map fst (projr (st_folium_defaults (Inr [[Some (10::nat), Some 20], [Some 30, Some 40]])
                     (Some [''zoom'' \<mapsto> (7::nat)]) (Some [''zoom'']))) = [''zoom'']"
proof -
  have e: "st_folium_defaults (Inr [[Some (10::nat), Some 20], [Some 30, Some 40]])
             (Some [''zoom'' \<mapsto> (7::nat)]) (Some [''zoom''])
           = Inr [(''zoom'', Zoom 7)]"
    by (simp add: st_folium_defaults_def resolve_bounds_def bounds_to_dict_def all_defaults_def
        zoom_default_def)
  from defaults_filter [OF e] show ?thesis
    by (simp add: e)
qed

end
